theory Spec2Isabelle
  imports
    Main
    "HOL-Library.Char_ord"
    "HOL-Library.List_Lexorder"
    "HOL-Library.Product_Lexorder"
    "HOL-Library.Sublist"
    "HOL-Library.Multiset"
begin

section \<open>Python strings\<close>

text \<open>
  A Python \<^verbatim>\<open>str\<close> is modelled as a \<^typ>\<open>string\<close>; a \<^typ>\<open>char\<close> stands for a code
  point below 256. A table cell read by pandas is either a string or NaN; NaN (and Python's
  \<^verbatim>\<open>None\<close>) is \<^term>\<open>None\<close>, so \<^verbatim>\<open>pd.isna(x)\<close> is \<open>x = None\<close> and
  \<^verbatim>\<open>pd.notna(x)\<close> is \<open>x \<noteq> None\<close>.
\<close>

type_synonym cell = "string option"

text \<open>\<^verbatim>\<open>sub in s\<close>: the string \<open>sub\<close> occurs in \<open>s\<close> at some position.\<close>

fun str_contains :: "string \<Rightarrow> string \<Rightarrow> bool" where
  "str_contains [] sub = (sub = [])"
| "str_contains (c # cs) sub = (prefix sub (c # cs) \<or> str_contains cs sub)"

text \<open>
  \<^verbatim>\<open>s.replace(old, new)\<close>: every occurrence of \<open>old\<close>, found from left to right without
  overlap, is replaced. For an empty \<open>old\<close> Python puts \<open>new\<close> before every character and
  at the end.
\<close>

function str_replace_ne :: "string \<Rightarrow> string \<Rightarrow> string \<Rightarrow> string" where
  "str_replace_ne [] old new = []"
| "str_replace_ne (c # cs) old new =
     (if prefix old (c # cs)
      then new @ str_replace_ne (drop (length old - 1) cs) old new
      else c # str_replace_ne cs old new)"
  by pat_completeness auto
termination
  by (relation "measure (\<lambda>(s, old, new). length s)") auto

definition str_replace :: "string \<Rightarrow> string \<Rightarrow> string \<Rightarrow> string" where
  "str_replace s old new =
     (if old = [] then new @ concat (map (\<lambda>c. c # new) s) else str_replace_ne s old new)"

text \<open>
  \<^verbatim>\<open>str.isspace\<close> on the code points below 256: tab to carriage return, the four
  separators 28 to 31, space, NEL (133) and the no-break space (160).
\<close>

definition is_space :: "char \<Rightarrow> bool" where
  "is_space c = (of_char c \<in> {9, 10, 11, 12, 13, 28, 29, 30, 31, 32, 133, 160 :: nat})"

text \<open>\<^verbatim>\<open>s.strip()\<close>\<close>

definition str_strip :: "string \<Rightarrow> string" where
  "str_strip s = rev (dropWhile is_space (rev (dropWhile is_space s)))"

text \<open>\<^verbatim>\<open>s.split(sep)[0]\<close> for a non-empty \<open>sep\<close>: the part of \<open>s\<close> before the first \<open>sep\<close>,
  all of \<open>s\<close> when \<open>sep\<close> does not occur.\<close>

fun str_split_first :: "string \<Rightarrow> string \<Rightarrow> string" where
  "str_split_first [] sep = []"
| "str_split_first (c # cs) sep =
     (if prefix sep (c # cs) then [] else c # str_split_first cs sep)"

section \<open>Effect parser\<close>

text \<open>
  \<^verbatim>\<open>strength_map = {'(Sm)': 1, '(M)': 2, '(L)': 3, '(XL)': 4}\<close>; a dict is iterated in
  insertion order, so \<^verbatim>\<open>strength_map.items()\<close> is this list.
\<close>

definition strength_map :: "(string \<times> int) list" where
  "strength_map = [(''(Sm)'', 1), (''(M)'', 2), (''(L)'', 3), (''(XL)'', 4)]"

text \<open>The first loop of \<^verbatim>\<open>parse_effect_strength\<close>; \<open>None\<close> when it ends without returning.\<close>

fun scan_markers :: "(string \<times> int) list \<Rightarrow> string \<Rightarrow> (string \<times> int) option" where
  "scan_markers [] effect = None"
| "scan_markers ((strength_text, strength_value) # rest) effect =
     (if str_contains effect strength_text
      then Some (str_strip (str_replace effect strength_text []), strength_value)
      else scan_markers rest effect)"

text \<open>The loop under \<^verbatim>\<open>if 'EffectUP' in effect\<close>.\<close>

fun scan_effect_up :: "(string \<times> int) list \<Rightarrow> string \<Rightarrow> (string \<times> int) option" where
  "scan_effect_up [] effect = None"
| "scan_effect_up ((strength_text, strength_value) # rest) effect =
     (if str_contains effect strength_text
      then Some (str_replace (str_strip (str_split_first effect ''EffectUP'')) [CHR 0x22] [],
                 strength_value)
      else scan_effect_up rest effect)"

definition parse_effect_strength :: "cell \<Rightarrow> string option \<times> int" where
  "parse_effect_strength effect =
     (case effect of
        None \<Rightarrow> (None, 0)
      | Some e \<Rightarrow>
          (case scan_markers strength_map e of
             Some (effect_type, strength_value) \<Rightarrow> (Some effect_type, strength_value)
           | None \<Rightarrow>
               if str_contains e ''EffectUP''
               then (case scan_effect_up strength_map e of
                       Some (effect_type, strength_value) \<Rightarrow> (Some effect_type, strength_value)
                     | None \<Rightarrow> (Some e, 1))
               else (Some e, 1)))"

section \<open>Unit hierarchy\<close>

text \<open>
  A row of \<^verbatim>\<open>cats.tsv\<close> with its columns \<^verbatim>\<open>First\<close>, \<^verbatim>\<open>Evolved\<close>, \<^verbatim>\<open>True\<close>, \<^verbatim>\<open>Ultra\<close>.
\<close>

record cat_row =
  First :: cell
  Evolved :: cell
  True_form :: cell
  Ultra :: cell

text \<open>The global dict \<^verbatim>\<open>cat_hierarchy\<close>: unit name to the set of names that satisfy it.\<close>

type_synonym hierarchy = "string \<rightharpoonup> string set"

text \<open>The list \<^verbatim>\<open>forms\<close> of a row: its present stages, in column order.\<close>

definition row_forms :: "cat_row \<Rightarrow> string list" where
  "row_forms row = List.map_filter (\<lambda>c. c) [First row, Evolved row, True_form row, Ultra row]"

text \<open>
  \<^verbatim>\<open>for i, form in enumerate(forms)\<close>: the entry of \<open>form\<close> is created empty when missing and
  \<^verbatim>\<open>forms[i:]\<close>, which is \<open>form\<close> and the forms after it, is added to it.
\<close>

fun add_forms :: "hierarchy \<Rightarrow> string list \<Rightarrow> hierarchy" where
  "add_forms h [] = h"
| "add_forms h (form # later) =
     add_forms (h(form \<mapsto> (case h form of None \<Rightarrow> {} | Some s \<Rightarrow> s) \<union> set (form # later)))
       later"

text \<open>\<^verbatim>\<open>for _, row in cats_data.iterrows()\<close>, from the hierarchy \<open>h\<close>.\<close>

fun build_hierarchy :: "hierarchy \<Rightarrow> cat_row list \<Rightarrow> hierarchy" where
  "build_hierarchy h [] = h"
| "build_hierarchy h (row # rows) = build_hierarchy (add_forms h (row_forms row)) rows"

text \<open>The hierarchy after \<^verbatim>\<open>load_data\<close>: the global starts as the empty dict.\<close>

definition load_data :: "cat_row list \<Rightarrow> hierarchy" where
  "load_data cats_data = build_hierarchy Map.empty cats_data"

text \<open>
  Two notions to speak about the result: the satisfying set of a unit in a hierarchy, empty
  for a unit without an entry, and what one list of forms adds to the entry of \<open>x\<close>: the
  forms from each occurrence of \<open>x\<close> on.
\<close>

definition satisfying :: "hierarchy \<Rightarrow> string \<Rightarrow> string set" where
  "satisfying h x = (case h x of None \<Rightarrow> {} | Some s \<Rightarrow> s)"

fun later_forms :: "string \<Rightarrow> string list \<Rightarrow> string set" where
  "later_forms x [] = {}"
| "later_forms x (form # later) =
     (if form = x then set (form # later) else {}) \<union> later_forms x later"

section \<open>Unit availability\<close>

text \<open>The inner loop of \<^verbatim>\<open>can_satisfy_combo\<close>; its value is the flag \<^verbatim>\<open>found\<close>.\<close>

fun find_available :: "hierarchy \<Rightarrow> string \<Rightarrow> string list \<Rightarrow> bool" where
  "find_available cat_hierarchy required_cat [] = False"
| "find_available cat_hierarchy required_cat (available_cat # rest) =
     (if available_cat = required_cat then True
      else if (case cat_hierarchy required_cat of
                 None \<Rightarrow> False
               | Some s \<Rightarrow> available_cat \<in> s) then True
      else find_available cat_hierarchy required_cat rest)"

fun can_satisfy_combo :: "hierarchy \<Rightarrow> string list \<Rightarrow> string list \<Rightarrow> bool" where
  "can_satisfy_combo cat_hierarchy [] available_cats = True"
| "can_satisfy_combo cat_hierarchy (required_cat # rest) available_cats =
     (if \<not> find_available cat_hierarchy required_cat available_cats then False
      else can_satisfy_combo cat_hierarchy rest available_cats)"

section \<open>Combo catalog\<close>

text \<open>
  A row of \<^verbatim>\<open>combos.tsv\<close>. A unit column that the table does not have reads like a NaN
  cell: \<^verbatim>\<open>get_combo_units\<close> skips both.
\<close>

record combo_row =
  Name :: cell
  Effect :: cell
  Unit1 :: cell
  Unit2 :: cell
  Unit3 :: cell
  Unit4 :: cell
  Unit5 :: cell

definition get_combo_units :: "combo_row \<Rightarrow> string list" where
  "get_combo_units combo_row =
     List.map_filter (\<lambda>c. c)
       [Unit1 combo_row, Unit2 combo_row, Unit3 combo_row, Unit4 combo_row, Unit5 combo_row]"

text \<open>The dict appended to \<^verbatim>\<open>matching_combos\<close>.\<close>

record combo =
  name :: cell
  effect_type :: "string option"
  strength :: int
  units :: "string list"
  unit_count :: int

definition make_combo :: "combo_row \<Rightarrow> combo" where
  "make_combo row =
     \<lparr>name = Name row,
      effect_type = fst (parse_effect_strength (Effect row)),
      strength = snd (parse_effect_strength (Effect row)),
      units = get_combo_units row,
      unit_count = int (length (get_combo_units row))\<rparr>"

text \<open>
  The first loop of \<^verbatim>\<open>find_combo_combinations\<close>: the combos whose parsed effect type is the
  target string, in table order.
\<close>

definition matching_combos :: "combo_row list \<Rightarrow> string \<Rightarrow> combo list" where
  "matching_combos combos_data target_effect_type =
     map make_combo
       (filter (\<lambda>row. fst (parse_effect_strength (Effect row)) = Some target_effect_type)
          combos_data)"

section \<open>Combination search\<close>

text \<open>
  \<^verbatim>\<open>itertools.combinations(xs, k)\<close>: the sub-lists of \<open>xs\<close> of length \<open>k\<close>, by increasing
  positions.
\<close>

fun combinations :: "'a list \<Rightarrow> nat \<Rightarrow> 'a list list" where
  "combinations xs 0 = [[]]"
| "combinations [] (Suc k) = []"
| "combinations (x # xs) (Suc k) = map ((#) x) (combinations xs k) @ combinations xs (Suc k)"

text \<open>
  A search result. The source stores \<^verbatim>\<open>list(all_cats)\<close>, a list of the set in an order
  that Python does not fix; the record keeps the set.
\<close>

record candidate =
  combos :: "cell list"
  total_strength :: int
  cats :: "string set"
  cat_count :: int

text \<open>\<^verbatim>\<open>all_cats = set()\<close>, then \<^verbatim>\<open>all_cats.update(combo['units'])\<close> for each combo.\<close>

definition all_cats :: "combo list \<Rightarrow> string set" where
  "all_cats combo_combination = foldl (\<lambda>s combo. s \<union> set (units combo)) {} combo_combination"

text \<open>The body of the inner loop: the results that one combination appends.\<close>

definition try_combination :: "int \<Rightarrow> int \<Rightarrow> combo list \<Rightarrow> candidate list" where
  "try_combination target_strength max_cats combo_combination =
     (let total = sum_list (map strength combo_combination) in
      if total \<ge> target_strength then
        (if int (card (all_cats combo_combination)) \<le> max_cats then
           [\<lparr>combos = map name combo_combination,
             total_strength = total,
             cats = all_cats combo_combination,
             cat_count = int (card (all_cats combo_combination))\<rparr>]
         else [])
      else [])"

text \<open>The two nested loops: \<^verbatim>\<open>combo_count\<close> from 1 to the number of matching combos.\<close>

definition enumerate_results :: "combo list \<Rightarrow> int \<Rightarrow> int \<Rightarrow> candidate list" where
  "enumerate_results matching target_strength max_cats =
     concat (map (\<lambda>combo_count.
                concat (map (try_combination target_strength max_cats)
                          (combinations matching combo_count)))
             [1 ..< Suc (length matching)])"

text \<open>\<^verbatim>\<open>tuple(sorted(result['cats']))\<close>\<close>

definition cats_tuple :: "candidate \<Rightarrow> string list" where
  "cats_tuple result = sorted_list_of_set (cats result)"

text \<open>The duplicate removal, with the set \<^verbatim>\<open>seen_cats\<close> passed along.\<close>

fun unique_results :: "string list set \<Rightarrow> candidate list \<Rightarrow> candidate list" where
  "unique_results seen_cats [] = []"
| "unique_results seen_cats (result # results) =
     (if cats_tuple result \<notin> seen_cats
      then result # unique_results (insert (cats_tuple result) seen_cats) results
      else unique_results seen_cats results)"

text \<open>
  \<^verbatim>\<open>find_combo_combinations\<close> over the combo table. Python's \<^verbatim>\<open>sort\<close> is stable, also with
  \<^verbatim>\<open>reverse=True\<close>, as \<^const>\<open>sort_key\<close> is; tuples are compared lexicographically.
\<close>

definition find_combo_combinations ::
  "combo_row list \<Rightarrow> string \<Rightarrow> int \<Rightarrow> int \<Rightarrow> candidate list" where
  "find_combo_combinations combos_data target_effect_type target_strength max_cats =
     (let matching = sort_key (\<lambda>x. - strength x) (matching_combos combos_data target_effect_type);
          results = enumerate_results matching target_strength max_cats
      in sort_key (\<lambda>x. (cat_count x, - total_strength x)) (unique_results {} results))"

section \<open>Query surface\<close>

text \<open>\<^verbatim>\<open>get_effect_types\<close>: the set of the truthy parsed effect types, sorted.\<close>

definition get_effect_types :: "combo_row list \<Rightarrow> string list" where
  "get_effect_types combos_data =
     sorted_list_of_set
       (foldl (\<lambda>effect_types combo.
                 case fst (parse_effect_strength (Effect combo)) of
                   None \<Rightarrow> effect_types
                 | Some t \<Rightarrow> if t \<noteq> [] then insert t effect_types else effect_types)
          {} combos_data)"

text \<open>
  \<^verbatim>\<open>int(s)\<close> on a string of CPython 3.11: whitespace around, an optional sign, then decimal
  digits with single underscores between digits allowed. \<open>None\<close> is the \<^verbatim>\<open>ValueError\<close>.
  The whitespace that \<^verbatim>\<open>int\<close> skips is narrower than that of \<^verbatim>\<open>str.strip\<close>: tab to carriage
  return, space, NEL (133) and the no-break space (160), but not the separators 28 to 31.
  A literal of more than 4300 digits (the default of \<^verbatim>\<open>sys.get_int_max_str_digits()\<close>) is
  rejected; leading zeros count as digits, underscores and the sign do not.
\<close>

definition is_int_space :: "char \<Rightarrow> bool" where
  "is_int_space c = (of_char c \<in> {9, 10, 11, 12, 13, 32, 133, 160 :: nat})"

definition int_strip :: "string \<Rightarrow> string" where
  "int_strip s = rev (dropWhile is_int_space (rev (dropWhile is_int_space s)))"

definition max_str_digits :: nat where
  "max_str_digits = 4300"

definition is_digit :: "char \<Rightarrow> bool" where
  "is_digit c = (48 \<le> (of_char c :: nat) \<and> (of_char c :: nat) \<le> 57)"

definition digit_value :: "char \<Rightarrow> int" where
  "digit_value c = int (of_char c) - 48"

fun py_digits :: "int \<Rightarrow> string \<Rightarrow> int option" where
  "py_digits acc [] = Some acc"
| "py_digits acc [c] = (if is_digit c then Some (10 * acc + digit_value c) else None)"
| "py_digits acc (c # d # cs) =
     (if is_digit c then py_digits (10 * acc + digit_value c) (d # cs)
      else if c = CHR ''_'' \<and> is_digit d then py_digits acc (d # cs)
      else None)"

definition py_unsigned :: "string \<Rightarrow> int option" where
  "py_unsigned s =
     (case s of
        [] \<Rightarrow> None
      | c # cs \<Rightarrow>
          if is_digit c then
            (if length (filter is_digit s) > max_str_digits then None
             else py_digits (digit_value c) cs)
          else None)"

definition py_int :: "string \<Rightarrow> int option" where
  "py_int s =
     (case int_strip s of
        [] \<Rightarrow> None
      | c # cs \<Rightarrow>
          if c = CHR ''-'' then map_option uminus (py_unsigned cs)
          else if c = CHR ''+'' then py_unsigned cs
          else py_unsigned (c # cs))"

text \<open>An exception that leaves the request handler; the string is the rejected literal.\<close>

datatype exn = ValueError string

text \<open>\<^verbatim>\<open>int(request.args.get(key, dflt))\<close>\<close>

definition int_arg :: "(string \<rightharpoonup> string) \<Rightarrow> string \<Rightarrow> int \<Rightarrow> exn + int" where
  "int_arg args key dflt =
     (case args key of
        None \<Rightarrow> Inr dflt
      | Some s \<Rightarrow> (case py_int s of None \<Rightarrow> Inl (ValueError s) | Some n \<Rightarrow> Inr n))"

text \<open>The JSON body of a response and its HTTP status.\<close>

datatype body = Error string | Results "candidate list" int

type_synonym response = "body \<times> nat"

text \<open>
  \<^verbatim>\<open>find_combinations\<close>. The search is a parameter: \<open>Inl msg\<close> is an exception raised by
  \<^verbatim>\<open>find_combo_combinations\<close> whose \<^verbatim>\<open>str\<close> is \<open>msg\<close>. Both \<^verbatim>\<open>int\<close> conversions run
  before the test of \<^verbatim>\<open>effect_type\<close> and outside the \<^verbatim>\<open>try\<close>.
\<close>

definition find_combinations ::
  "(string \<Rightarrow> int \<Rightarrow> int \<Rightarrow> string + candidate list) \<Rightarrow> (string \<rightharpoonup> string) \<Rightarrow> exn + response"
  where
  "find_combinations search args =
     (let effect_type = args ''effect_type'' in
      case int_arg args ''strength'' 1 of
        Inl e \<Rightarrow> Inl e
      | Inr strength_arg \<Rightarrow>
          (case int_arg args ''max_cats'' 5 of
             Inl e \<Rightarrow> Inl e
           | Inr max_cats \<Rightarrow>
               (case effect_type of
                  None \<Rightarrow> Inr (Error ''Effect type is required'', 400)
                | Some t \<Rightarrow>
                    if t = [] then Inr (Error ''Effect type is required'', 400)
                    else (case search t strength_arg max_cats of
                            Inr results \<Rightarrow> Inr (Results results (int (length results)), 200)
                          | Inl msg \<Rightarrow> Inr (Error msg, 500)))))"

text \<open>
  The requests of one run of the server, answered in order. The handler reads the loaded
  tables and assigns no global, so every request is answered by the same function of its
  arguments. An exception that leaves the handler (\<open>Inl\<close>) is left to the framework.
\<close>

definition serve ::
  "(string \<Rightarrow> int \<Rightarrow> int \<Rightarrow> string + candidate list) \<Rightarrow> (string \<rightharpoonup> string) list \<Rightarrow>
     (exn + response) list" where
  "serve search requests = map (find_combinations search) requests"

text \<open>
  The search as the handler calls it, over the global \<^verbatim>\<open>combos_data\<close>: \<open>None\<close> before
  \<^verbatim>\<open>load_data\<close> has run, and then \<^verbatim>\<open>combos_data.iterrows()\<close> raises.
\<close>

definition search_global :: "combo_row list option \<Rightarrow> string \<Rightarrow> int \<Rightarrow> int \<Rightarrow> string + candidate list"
  where
  "search_global combos_data target_effect_type target_strength max_cats =
     (case combos_data of
        None \<Rightarrow> Inl (CHR 0x27 # ''NoneType'' @ CHR 0x27 # '' object has no attribute '' @
                    CHR 0x27 # ''iterrows'' @ [CHR 0x27])
      | Some rows \<Rightarrow>
          Inr (find_combo_combinations rows target_effect_type target_strength max_cats))"

section \<open>Example tables\<close>

text \<open>
  Three combos of type \<^verbatim>\<open>Attack\<close>: \<^verbatim>\<open>A\<close> of tier 2 on the units \<^verbatim>\<open>u1\<close>, \<^verbatim>\<open>u2\<close>, \<^verbatim>\<open>B\<close> of
  tier 3 on \<^verbatim>\<open>u2\<close>, \<^verbatim>\<open>u3\<close> and \<^verbatim>\<open>C\<close> of tier 1 on \<^verbatim>\<open>u4\<close>.
\<close>

definition combo_of :: "string \<Rightarrow> string \<Rightarrow> cell \<Rightarrow> cell \<Rightarrow> combo_row" where
  "combo_of n e u1 u2 =
     \<lparr>Name = Some n, Effect = Some e, Unit1 = u1, Unit2 = u2,
      Unit3 = None, Unit4 = None, Unit5 = None\<rparr>"

definition attack_combos :: "combo_row list" where
  "attack_combos =
     [combo_of ''A'' ''Attack (M)'' (Some ''u1'') (Some ''u2''),
      combo_of ''B'' ''Attack (L)'' (Some ''u2'') (Some ''u3''),
      combo_of ''C'' ''Attack (Sm)'' (Some ''u4'') None]"

text \<open>A unit table of one chain, and one in which the unit \<^verbatim>\<open>B\<close> starts a second chain.\<close>

definition one_chain :: "cat_row list" where
  "one_chain =
     [\<lparr>First = Some ''A'', Evolved = Some ''B'', True_form = Some ''C'', Ultra = None\<rparr>]"

definition shared_unit :: "cat_row list" where
  "shared_unit =
     [\<lparr>First = Some ''A'', Evolved = Some ''B'', True_form = Some ''C'', Ultra = None\<rparr>,
      \<lparr>First = Some ''B'', Evolved = Some ''D'', True_form = None, Ultra = None\<rparr>]"

text \<open>
  A unit table in which the chain of \<^verbatim>\<open>A\<close> shares no unit with the other rows, while those
  share the unit \<^verbatim>\<open>X\<close>.
\<close>

definition other_chains :: "cat_row list" where
  "other_chains =
     [\<lparr>First = Some ''A'', Evolved = Some ''B'', True_form = Some ''C'', Ultra = None\<rparr>,
      \<lparr>First = Some ''X'', Evolved = Some ''Y'', True_form = None, Ultra = None\<rparr>,
      \<lparr>First = Some ''X'', Evolved = Some ''Z'', True_form = None, Ultra = None\<rparr>]"

section \<open>Properties of the string operations\<close>

lemma str_contains_iff_sublist: "str_contains s sub \<longleftrightarrow> sublist sub s"
  by (induction s) (auto simp: sublist_Cons_right)

lemma scan_effect_up_dead: "scan_markers ms e = None \<Longrightarrow> scan_effect_up ms e = None"
  by (induction ms e rule: scan_markers.induct) (auto split: if_splits)

lemma parse_effect_strength_Some:
  "parse_effect_strength (Some e) =
     (case scan_markers strength_map e of
        Some (t, v) \<Rightarrow> (Some t, v)
      | None \<Rightarrow> (Some e, 1))"
  by (simp add: parse_effect_strength_def scan_effect_up_dead split: option.splits)

section \<open>Claims about the effect parser\<close>

text \<open>
  C4, as amended. The guard of \<^verbatim>\<open>parse_effect_strength\<close> is \<^verbatim>\<open>pd.isna\<close>: the result is
  \<open>(None, 0)\<close> exactly for an absent label (NaN, \<^verbatim>\<open>None\<close>). The empty string is not NaN:
  it falls through to the default and the result is the empty string with tier 1.
\<close>

theorem parse_absent_label:
  "parse_effect_strength None = (None, 0) \<and>
   parse_effect_strength (Some []) = (Some [], 1) \<and>
   (parse_effect_strength effect = (None, 0) \<longleftrightarrow> effect = None)"
  by (auto simp: parse_effect_strength_Some parse_effect_strength_def strength_map_def
           split: option.splits)

text \<open>C4 as stated fails on the empty string: \<^verbatim>\<open>parse("")\<close> is not \<open>(none, 0)\<close>.\<close>

theorem parse_empty_string_counterexample:
  "parse_effect_strength (Some []) \<noteq> (None, 0)"
  by (simp add: parse_effect_strength_def split: option.splits)

text \<open>
  C3. On \<^verbatim>\<open>"Eva Angel Killer" EffectUP (XL)\<close> the first loop finds \<^verbatim>\<open>(XL)\<close> and returns
  the label without that marker, trimmed: the keyword \<^verbatim>\<open>EffectUP\<close> and the double quotes
  stay in the effect type. The branch written for this label is never reached
  (\<open>scan_effect_up_dead\<close>): it runs only after every marker has been looked for in vain.
\<close>

theorem parse_eva_angel_killer:
  \<open>parse_effect_strength (Some ''"Eva Angel Killer" EffectUP (XL)'') =
     (Some ''"Eva Angel Killer" EffectUP'', 4)\<close>
  by (simp add: parse_effect_strength_def strength_map_def str_strip_def str_replace_def
        is_space_def)

text \<open>
  C7. The markers are looked for in the order \<^verbatim>\<open>(Sm)\<close>, \<^verbatim>\<open>(M)\<close>, \<^verbatim>\<open>(L)\<close>, \<^verbatim>\<open>(XL)\<close>; the
  first one that occurs in the label decides: the effect type is the label with that marker
  removed and then trimmed, the tier is the marker's. With no marker in the label the
  result is the label itself, untrimmed, with tier 1. This holds for every string label,
  the non-empty ones in particular.
\<close>

theorem parse_first_marker_wins:
  "parse_effect_strength (Some label) =
     (if str_contains label ''(Sm)''
        then (Some (str_strip (str_replace label ''(Sm)'' [])), 1)
      else if str_contains label ''(M)''
        then (Some (str_strip (str_replace label ''(M)'' [])), 2)
      else if str_contains label ''(L)''
        then (Some (str_strip (str_replace label ''(L)'' [])), 3)
      else if str_contains label ''(XL)''
        then (Some (str_strip (str_replace label ''(XL)'' [])), 4)
      else (Some label, 1))"
  by (simp add: parse_effect_strength_Some strength_map_def)

theorem parse_first_marker_wins_witness:
  "parse_effect_strength (Some ''Attack (L)'') = (Some ''Attack'', 3) \<and>
   parse_effect_strength (Some '' (XL) Speed (M) '') = (Some ''(XL) Speed'', 2) \<and>
   parse_effect_strength (Some '' Research '') = (Some '' Research '', 1)"
  using parse_first_marker_wins [of "''Attack (L)''"]
    parse_first_marker_wins [of "'' (XL) Speed (M) ''"]
    parse_first_marker_wins [of "'' Research ''"]
  by (simp add: str_strip_def str_replace_def is_space_def)

section \<open>Claims about the availability predicate and the listing of effect types\<close>

lemma find_available_iff:
  "find_available h r avail \<longleftrightarrow> (\<exists>a\<in>set avail. a = r \<or> (\<exists>s. h r = Some s \<and> a \<in> s))"
  by (induction avail) (auto split: option.splits)

text \<open>
  C8. \<^verbatim>\<open>can_satisfy_combo\<close> is true exactly when for every required unit some available
  unit is that unit or is in the required unit's entry of the hierarchy; a required unit
  without an entry is only satisfied by itself.
\<close>

theorem can_satisfy_combo_iff:
  "can_satisfy_combo cat_hierarchy combo_units available_cats \<longleftrightarrow>
     (\<forall>r\<in>set combo_units. \<exists>a\<in>set available_cats.
         a = r \<or> (\<exists>s. cat_hierarchy r = Some s \<and> a \<in> s))"
  by (induction combo_units) (simp_all add: find_available_iff)

theorem can_satisfy_combo_iff_witness:
  "can_satisfy_combo (load_data one_chain) [''A'', ''B'', ''Z''] [''Z'', ''C''] \<and>
   \<not> can_satisfy_combo (load_data one_chain) [''C''] [''A'', ''B'']"
  using can_satisfy_combo_iff [of "load_data one_chain" "[''A'', ''B'', ''Z'']" "[''Z'', ''C'']"]
    can_satisfy_combo_iff [of "load_data one_chain" "[''C'']" "[''A'', ''B'']"]
  by (simp add: load_data_def one_chain_def row_forms_def List.map_filter_simps)

lemma effect_types_foldl:
  "foldl (\<lambda>effect_types combo.
            case fst (parse_effect_strength (Effect combo)) of
              None \<Rightarrow> effect_types
            | Some t \<Rightarrow> if t \<noteq> [] then insert t effect_types else effect_types) S rows
   = S \<union> {t. t \<noteq> [] \<and> (\<exists>row\<in>set rows. fst (parse_effect_strength (Effect row)) = Some t)}"
  by (induction rows arbitrary: S) (auto split: option.splits)

lemma finite_effect_types:
  "finite {t. t \<noteq> [] \<and> (\<exists>row\<in>set rows. fst (parse_effect_strength (Effect row)) = Some t)}"
proof -
  have "{t. t \<noteq> [] \<and> (\<exists>row\<in>set rows. fst (parse_effect_strength (Effect row)) = Some t)}
        \<subseteq> (\<lambda>row. the (fst (parse_effect_strength (Effect row)))) ` set rows"
    by force
  then show ?thesis by (rule finite_subset) simp
qed

text \<open>
  C10. The listing holds exactly the non-empty strings that are the parsed effect type of
  some combo, each once, in increasing order; a combo without a label (parsed type
  \<open>None\<close>) and a combo whose label parses to the empty string add nothing.
\<close>

theorem get_effect_types_truthy:
  "set (get_effect_types combos_data) =
     {t. t \<noteq> [] \<and> (\<exists>row\<in>set combos_data. fst (parse_effect_strength (Effect row)) = Some t)}
   \<and> sorted (get_effect_types combos_data)
   \<and> distinct (get_effect_types combos_data)
   \<and> [] \<notin> set (get_effect_types combos_data)"
  by (simp add: get_effect_types_def effect_types_foldl finite_effect_types)

theorem get_effect_types_truthy_witness:
  "fst (parse_effect_strength (Effect (combo_of ''n2'' ''(Sm)'' (Some ''u2'') None))) = Some [] \<and>
   get_effect_types
     [combo_of ''n1'' ''Speed (M)'' (Some ''u1'') None,
      combo_of ''n2'' ''(Sm)'' (Some ''u2'') None,
      \<lparr>Name = Some ''n3'', Effect = None, Unit1 = Some ''u3'', Unit2 = None,
         Unit3 = None, Unit4 = None, Unit5 = None\<rparr>,
      combo_of ''n4'' ''Attack (L)'' (Some ''u4'') None,
      combo_of ''n5'' ''Speed (XL)'' (Some ''u5'') None]
   = [''Attack'', ''Speed'']"
proof -
  let ?rows = "[combo_of ''n1'' ''Speed (M)'' (Some ''u1'') None,
      combo_of ''n2'' ''(Sm)'' (Some ''u2'') None,
      \<lparr>Name = Some ''n3'', Effect = None, Unit1 = Some ''u3'', Unit2 = None,
         Unit3 = None, Unit4 = None, Unit5 = None\<rparr>,
      combo_of ''n4'' ''Attack (L)'' (Some ''u4'') None,
      combo_of ''n5'' ''Speed (XL)'' (Some ''u5'') None]"
  have v: "get_effect_types ?rows = [''Attack'', ''Speed'']"
    by code_simp
  have e: "fst (parse_effect_strength (Effect (combo_of ''n2'' ''(Sm)'' (Some ''u2'') None)))
             = Some []"
    by code_simp
  show ?thesis
    using get_effect_types_truthy [of ?rows] v e by simp
qed

section \<open>Properties of the search\<close>

lemma combinations_iff: "cc \<in> set (combinations xs k) \<longleftrightarrow> subseq cc xs \<and> length cc = k"
proof (induction xs k arbitrary: cc rule: combinations.induct)
  case (1 xs)
  show ?case by auto
next
  case (2 k)
  show ?case by auto
next
  case (3 x xs k)
  show ?case
  proof (cases cc)
    case Nil
    then show ?thesis using 3 by auto
  next
    case (Cons c cs)
    then show ?thesis using 3 by (auto dest: subseq_Cons')
  qed
qed

lemma subseq_mset: "subseq xs ys \<Longrightarrow> mset xs \<subseteq># mset ys"
  by (induction rule: list_emb.induct) (auto intro: subset_mset.order_trans)

lemma foldl_units:
  "foldl (\<lambda>s combo. s \<union> set (units combo)) S cc = S \<union> (\<Union>c\<in>set cc. set (units c))"
  by (induction cc arbitrary: S) auto

lemma all_cats_eq: "all_cats cc = (\<Union>c\<in>set cc. set (units c))"
  by (simp add: all_cats_def foldl_units)

lemma try_combination_iff:
  "r \<in> set (try_combination ts mx cc) \<longleftrightarrow>
     ts \<le> sum_list (map strength cc) \<and> int (card (all_cats cc)) \<le> mx \<and>
     r = \<lparr>combos = map name cc, total_strength = sum_list (map strength cc),
          cats = all_cats cc, cat_count = int (card (all_cats cc))\<rparr>"
  by (auto simp: try_combination_def Let_def)

lemma enumerate_results_iff:
  "r \<in> set (enumerate_results m ts mx) \<longleftrightarrow>
     (\<exists>cc. cc \<noteq> [] \<and> subseq cc m \<and> r \<in> set (try_combination ts mx cc))"
proof
  assume "r \<in> set (enumerate_results m ts mx)"
  then obtain k cc where "1 \<le> k" "cc \<in> set (combinations m k)" "r \<in> set (try_combination ts mx cc)"
    by (auto simp: enumerate_results_def)
  then have "cc \<noteq> []" "subseq cc m"
    by (auto simp: combinations_iff)
  with \<open>r \<in> set (try_combination ts mx cc)\<close>
  show "\<exists>cc. cc \<noteq> [] \<and> subseq cc m \<and> r \<in> set (try_combination ts mx cc)"
    by blast
next
  assume "\<exists>cc. cc \<noteq> [] \<and> subseq cc m \<and> r \<in> set (try_combination ts mx cc)"
  then obtain cc where cc: "cc \<noteq> []" "subseq cc m" "r \<in> set (try_combination ts mx cc)"
    by blast
  then have "length cc \<le> length m" "1 \<le> length cc"
    by (auto dest: list_emb_length simp: Suc_le_eq)
  with cc show "r \<in> set (enumerate_results m ts mx)"
    unfolding enumerate_results_def
    by (auto simp: combinations_iff intro!: bexI [of _ "length cc"] bexI [of _ cc])
qed

lemma unique_results_subset: "set (unique_results S xs) \<subseteq> set xs"
  by (induction xs arbitrary: S) auto

lemma unique_results_keys: "cats_tuple ` set (unique_results S xs) = cats_tuple ` set xs - S"
  by (induction xs arbitrary: S) auto

lemma unique_results_distinct: "distinct (map cats_tuple (unique_results S xs))"
  by (induction xs arbitrary: S) (auto simp: unique_results_keys)

lemma search_sorted:
  "sorted (map (\<lambda>x. (cat_count x, - total_strength x)) (find_combo_combinations cd t ts mx))"
  by (simp add: find_combo_combinations_def Let_def)

lemma mset_subseq_ex: "A \<subseteq># mset zs \<Longrightarrow> \<exists>ys. subseq ys zs \<and> mset ys = A"
proof (induction zs arbitrary: A)
  case Nil
  then show ?case by simp
next
  case (Cons z zs)
  show ?case
  proof (cases "z \<in># A")
    case True
    then have "A - {#z#} \<subseteq># mset zs"
      using Cons.prems by (simp add: insert_subset_eq_iff subset_eq_diff_conv)
    then obtain ys where "subseq ys zs" "mset ys = A - {#z#}"
      using Cons.IH by blast
    with True have "subseq (z # ys) (z # zs) \<and> mset (z # ys) = A"
      by simp
    then show ?thesis by blast
  next
    case False
    then have "A \<subseteq># mset zs"
      using Cons.prems
      by (metis diff_single_trivial mset.simps(2) subset_eq_diff_conv add_mset_add_single)
    then obtain ys where "subseq ys zs" "mset ys = A"
      using Cons.IH by blast
    then have "subseq ys (z # zs) \<and> mset ys = A"
      by (simp add: list_emb_Cons)
    then show ?thesis by blast
  qed
qed

lemma finite_all_cats: "finite (all_cats cc)"
  by (simp add: all_cats_eq)

lemma enumerate_results_finite:
  "r \<in> set (enumerate_results m ts mx) \<Longrightarrow> finite (cats r)"
  by (auto simp: enumerate_results_iff try_combination_iff finite_all_cats)

lemma distinct_map_filter_one:
  "distinct (map f xs) \<Longrightarrow> x \<in> set xs \<Longrightarrow> length (filter (\<lambda>y. f y = f x) xs) = 1"
proof (induction xs)
  case Nil
  then show ?case by simp
next
  case (Cons a xs)
  show ?case
  proof (cases "f a = f x")
    case True
    with Cons.prems have "filter (\<lambda>y. f y = f x) xs = []"
      by (auto simp: filter_empty_conv image_iff)
    with True show ?thesis by simp
  next
    case False
    with Cons show ?thesis by auto
  qed
qed

lemma length_filter_sort_key:
  "length (filter P (sort_key f xs)) = length (filter P xs)"
proof -
  have "mset (filter P (sort_key f xs)) = mset (filter P xs)"
    by simp
  then show ?thesis by (metis size_mset)
qed

lemma search_distinct:
  "distinct (map cats_tuple (find_combo_combinations combos_data t ts mx))"
proof -
  let ?u = "unique_results {} (enumerate_results
              (sort_key (\<lambda>x. - strength x) (matching_combos combos_data t)) ts mx)"
  have "mset (map cats_tuple (sort_key (\<lambda>x. (cat_count x, - total_strength x)) ?u))
          = mset (map cats_tuple ?u)"
    by simp
  then have "distinct (map cats_tuple (sort_key (\<lambda>x. (cat_count x, - total_strength x)) ?u))
               = distinct (map cats_tuple ?u)"
    by (rule mset_eq_imp_distinct_iff)
  then show ?thesis
    by (simp add: find_combo_combinations_def Let_def unique_results_distinct)
qed

lemma attack_search:
  "find_combo_combinations attack_combos ''Attack'' 3 3 =
     [\<lparr>combos = [Some ''B''], total_strength = 3, cats = {''u2'', ''u3''}, cat_count = 2\<rparr>,
      \<lparr>combos = [Some ''B'', Some ''A''], total_strength = 5,
         cats = {''u1'', ''u2'', ''u3''}, cat_count = 3\<rparr>,
      \<lparr>combos = [Some ''B'', Some ''C''], total_strength = 4,
         cats = {''u2'', ''u3'', ''u4''}, cat_count = 3\<rparr>,
      \<lparr>combos = [Some ''A'', Some ''C''], total_strength = 3,
         cats = {''u1'', ''u2'', ''u4''}, cat_count = 3\<rparr>]"
  by code_simp

lemma search_represented:
  assumes sub: "subseq rows combos_data" and ne: "rows \<noteq> []"
    and match: "\<forall>row\<in>set rows. fst (parse_effect_strength (Effect row)) = Some t"
    and str: "ts \<le> sum_list (map (\<lambda>row. snd (parse_effect_strength (Effect row))) rows)"
    and cnt: "int (card (\<Union>row\<in>set rows. set (get_combo_units row))) \<le> mx"
  shows "length (filter (\<lambda>c. cats c = (\<Union>row\<in>set rows. set (get_combo_units row)))
                  (find_combo_combinations combos_data t ts mx)) = 1"
proof -
  let ?U = "\<Union>row\<in>set rows. set (get_combo_units row)"
  let ?P = "\<lambda>row. fst (parse_effect_strength (Effect row)) = Some t"
  let ?m = "sort_key (\<lambda>x. - strength x) (matching_combos combos_data t)"
  let ?res = "enumerate_results ?m ts mx"
  let ?u = "unique_results {} ?res"
  have "filter ?P rows = rows"
    using match by (simp add: filter_id_conv)
  then have "subseq rows (filter ?P combos_data)"
    using subseq_filter [OF sub, of ?P] by simp
  then have "subseq (map make_combo rows) (matching_combos combos_data t)"
    unfolding matching_combos_def by (rule subseq_map)
  then have "mset (map make_combo rows) \<subseteq># mset ?m"
    using subseq_mset by fastforce
  then obtain cc where cc: "subseq cc ?m" "mset cc = mset (map make_combo rows)"
    using mset_subseq_ex by blast
  from cc(2) ne have cc_ne: "cc \<noteq> []"
    by (metis Nil_is_map_conv mset_zero_iff)
  have "sum_list (map strength cc) = sum_mset (image_mset strength (mset cc))"
    by (metis mset_map sum_mset_sum_list)
  also have "\<dots> = sum_list (map strength (map make_combo rows))"
    unfolding cc(2) by (metis mset_map sum_mset_sum_list)
  finally have sum_eq:
    "sum_list (map strength cc) = sum_list (map (\<lambda>row. snd (parse_effect_strength (Effect row))) rows)"
    by (simp add: make_combo_def comp_def)
  have "set cc = make_combo ` set rows"
    using cc(2) by (metis set_map set_mset_mset)
  then have cats_eq: "all_cats cc = ?U"
    by (simp add: all_cats_eq make_combo_def)
  define r0 where "r0 = \<lparr>combos = map name cc, total_strength = sum_list (map strength cc),
                          cats = all_cats cc, cat_count = int (card (all_cats cc))\<rparr>"
  have "r0 \<in> set (try_combination ts mx cc)"
    using str cnt by (simp add: try_combination_iff r0_def sum_eq cats_eq)
  then have r0: "r0 \<in> set ?res"
    using cc(1) cc_ne by (auto simp: enumerate_results_iff)
  then have "cats_tuple r0 \<in> cats_tuple ` set ?u"
    by (simp add: unique_results_keys)
  then obtain r1 where r1: "r1 \<in> set ?u" "cats_tuple r1 = cats_tuple r0"
    by auto
  have fin: "finite (cats c)" if "c \<in> set ?u" for c
    using that unique_results_subset enumerate_results_finite by blast
  have finU: "finite ?U" by simp
  have key: "(cats c = ?U) = (cats_tuple c = cats_tuple r1)" if "c \<in> set ?u" for c
  proof -
    have "cats_tuple r1 = sorted_list_of_set ?U"
      using r1(2) by (simp add: cats_tuple_def r0_def cats_eq)
    then show ?thesis
      using fin [OF that] finU
      by (auto simp: cats_tuple_def dest: sorted_list_of_set_inject)
  qed
  have "filter (\<lambda>c. cats c = ?U) ?u = filter (\<lambda>c. cats_tuple c = cats_tuple r1) ?u"
    by (rule filter_cong) (simp_all add: key)
  then have "length (filter (\<lambda>c. cats c = ?U) ?u) = 1"
    using distinct_map_filter_one [OF unique_results_distinct r1(1)] by simp
  then have "length (filter (\<lambda>c. cats c = ?U) (find_combo_combinations combos_data t ts mx)) = 1"
    by (simp add: find_combo_combinations_def Let_def length_filter_sort_key)
  then show ?thesis .
qed

section \<open>Claims about the search\<close>

text \<open>
  C1. No two candidates of an output have the same sorted unit tuple. And take any
  selection \<open>rows\<close> of one or more rows of the combo table (a sub-list, so a subset of its
  positions), all of the target effect type, with a tier sum of at least the target
  strength and at most \<open>mx\<close> distinct units: exactly one candidate of the output has the
  union of their units as its unit set. The search combines one combo or more, so the
  selections are the non-empty ones.
\<close>

theorem search_complete:
  "distinct (map cats_tuple (find_combo_combinations combos_data t ts mx)) \<and>
   (subseq rows combos_data \<and> rows \<noteq> [] \<and>
    (\<forall>row\<in>set rows. fst (parse_effect_strength (Effect row)) = Some t) \<and>
    ts \<le> sum_list (map (\<lambda>row. snd (parse_effect_strength (Effect row))) rows) \<and>
    int (card (\<Union>row\<in>set rows. set (get_combo_units row))) \<le> mx \<longrightarrow>
    length (filter (\<lambda>c. cats c = (\<Union>row\<in>set rows. set (get_combo_units row)))
              (find_combo_combinations combos_data t ts mx)) = 1)"
  using search_distinct search_represented by blast

theorem search_complete_witness:
  "subseq [combo_of ''A'' ''Attack (M)'' (Some ''u1'') (Some ''u2''),
           combo_of ''C'' ''Attack (Sm)'' (Some ''u4'') None] attack_combos \<and>
   length (filter (\<lambda>c. cats c = {''u1'', ''u2'', ''u4''})
             (find_combo_combinations attack_combos ''Attack'' 3 3)) = 1 \<and>
   distinct (map cats_tuple (find_combo_combinations attack_combos ''Attack'' 3 3))"
proof -
  let ?rows = "[combo_of ''A'' ''Attack (M)'' (Some ''u1'') (Some ''u2''),
                combo_of ''C'' ''Attack (Sm)'' (Some ''u4'') None]"
  have sub: "subseq ?rows attack_combos"
    by (simp add: attack_combos_def combo_of_def)
  have ne: "?rows \<noteq> []" by simp
  have p1: "parse_effect_strength (Some ''Attack (M)'') = (Some ''Attack'', 2)"
    by code_simp
  have p2: "parse_effect_strength (Some ''Attack (Sm)'') = (Some ''Attack'', 1)"
    by code_simp
  have match: "\<forall>row\<in>set ?rows. fst (parse_effect_strength (Effect row)) = Some ''Attack''"
    by (simp add: combo_of_def p1 p2)
  have str: "3 \<le> sum_list (map (\<lambda>row. snd (parse_effect_strength (Effect row))) ?rows)"
    by (simp add: combo_of_def p1 p2)
  have U: "(\<Union>row\<in>set ?rows. set (get_combo_units row)) = {''u1'', ''u2'', ''u4''}"
    by (auto simp: combo_of_def get_combo_units_def List.map_filter_simps)
  have cnt: "int (card (\<Union>row\<in>set ?rows. set (get_combo_units row))) \<le> 3"
    unfolding U by simp
  have "distinct (map cats_tuple (find_combo_combinations attack_combos ''Attack'' 3 3)) \<and>
        length (filter (\<lambda>c. cats c = (\<Union>row\<in>set ?rows. set (get_combo_units row)))
                  (find_combo_combinations attack_combos ''Attack'' 3 3)) = 1"
    using search_complete [of attack_combos "''Attack''" 3 3 ?rows] sub ne match str cnt
    by blast
  then show ?thesis
    using sub unfolding U by simp
qed

text \<open>
  C2. Every candidate of the output has a total strength of at least the target strength
  and a unit count of at most \<open>mx\<close>. It is made from a non-empty selection of the matching
  combos: its total strength is the sum of their tiers, its unit set the union of their
  units and its unit count the size of that set.
\<close>

theorem search_sound:
  assumes "r \<in> set (find_combo_combinations combos_data t ts mx)"
  shows "ts \<le> total_strength r \<and> cat_count r \<le> mx \<and>
         (\<exists>cc. cc \<noteq> [] \<and> mset cc \<subseteq># mset (matching_combos combos_data t) \<and>
               combos r = map name cc \<and>
               total_strength r = sum_list (map strength cc) \<and>
               cats r = (\<Union>c\<in>set cc. set (units c)) \<and>
               cat_count r = int (card (cats r)))"
proof -
  let ?m = "sort_key (\<lambda>x. - strength x) (matching_combos combos_data t)"
  from assms have "r \<in> set (unique_results {} (enumerate_results ?m ts mx))"
    by (simp add: find_combo_combinations_def Let_def)
  then have "r \<in> set (enumerate_results ?m ts mx)"
    using unique_results_subset by blast
  then obtain cc where cc: "cc \<noteq> []" "subseq cc ?m" "r \<in> set (try_combination ts mx cc)"
    by (auto simp: enumerate_results_iff)
  from cc(2) have "mset cc \<subseteq># mset (matching_combos combos_data t)"
    using subseq_mset by fastforce
  with cc(1,3) show ?thesis
    by (auto simp: try_combination_iff all_cats_eq)
qed

theorem search_sound_witness:
  "\<lparr>combos = [Some ''A'', Some ''C''], total_strength = 3,
     cats = {''u1'', ''u2'', ''u4''}, cat_count = 3\<rparr>
     \<in> set (find_combo_combinations attack_combos ''Attack'' 3 3) \<and>
   (3::int) \<le> total_strength \<lparr>combos = [Some ''A'', Some ''C''], total_strength = 3,
     cats = {''u1'', ''u2'', ''u4''}, cat_count = 3\<rparr>"
  using search_sound [of "\<lparr>combos = [Some ''A'', Some ''C''], total_strength = 3,
     cats = {''u1'', ''u2'', ''u4''}, cat_count = 3\<rparr>" attack_combos "''Attack''" 3 3]
  by (simp add: attack_search)

text \<open>
  C5. The output is ordered: a candidate never has more units than one after it, and of
  two candidates with the same unit count the earlier one has at least the total strength
  of the later one.
\<close>

theorem search_ranked:
  assumes "i < j" and "j < length (find_combo_combinations cd t ts mx)"
  shows "cat_count (find_combo_combinations cd t ts mx ! i)
           \<le> cat_count (find_combo_combinations cd t ts mx ! j) \<and>
         (cat_count (find_combo_combinations cd t ts mx ! i)
            = cat_count (find_combo_combinations cd t ts mx ! j) \<longrightarrow>
          total_strength (find_combo_combinations cd t ts mx ! j)
            \<le> total_strength (find_combo_combinations cd t ts mx ! i))"
proof -
  let ?out = "find_combo_combinations cd t ts mx"
  let ?key = "\<lambda>x. (cat_count x, - total_strength x)"
  have "map ?key ?out ! i \<le> map ?key ?out ! j"
    using search_sorted [of cd t ts mx] assms
    by (simp add: sorted_iff_nth_mono_less del: length_map nth_map) (simp add: less_imp_le)
  then show ?thesis
    using assms by (auto simp: less_eq_prod_def)
qed

theorem search_ranked_witness:
  "(1::nat) < 2 \<and> 2 < length (find_combo_combinations attack_combos ''Attack'' 3 3) \<and>
   cat_count (find_combo_combinations attack_combos ''Attack'' 3 3 ! 1) = 3 \<and>
   cat_count (find_combo_combinations attack_combos ''Attack'' 3 3 ! 2) = 3 \<and>
   total_strength (find_combo_combinations attack_combos ''Attack'' 3 3 ! 2) = 4 \<and>
   total_strength (find_combo_combinations attack_combos ''Attack'' 3 3 ! 1) = 5"
  using search_ranked [of 1 2 attack_combos "''Attack''" 3 3]
  by (simp add: attack_search)

section \<open>Properties of the hierarchy\<close>

lemma later_forms_absent: "x \<notin> set fs \<Longrightarrow> later_forms x fs = {}"
  by (induction fs) auto

lemma later_forms_self: "x \<in> set fs \<Longrightarrow> x \<in> later_forms x fs"
  by (induction fs) auto

lemma later_forms_distinct:
  "distinct fs \<Longrightarrow> i < length fs \<Longrightarrow> later_forms (fs ! i) fs = set (drop i fs)"
proof (induction fs arbitrary: i)
  case Nil
  then show ?case by simp
next
  case (Cons f fs)
  show ?case
  proof (cases i)
    case 0
    with Cons.prems show ?thesis by (simp add: later_forms_absent)
  next
    case (Suc k)
    with Cons show ?thesis by auto
  qed
qed

lemma add_forms_apply:
  "add_forms h fs x =
     (if x \<in> set fs then Some (satisfying h x \<union> later_forms x fs) else h x)"
proof (induction fs arbitrary: h)
  case Nil
  show ?case by simp
next
  case (Cons f fs)
  show ?case
    by (auto simp: Cons.IH satisfying_def later_forms_absent split: option.splits)
qed

lemma satisfying_add_forms:
  "satisfying (add_forms h fs) x = satisfying h x \<union> later_forms x fs"
  by (simp add: satisfying_def add_forms_apply later_forms_absent split: option.splits)

lemma build_hierarchy_apply:
  "build_hierarchy h rows x =
     (if x \<in> (\<Union>r\<in>set rows. set (row_forms r))
      then Some (satisfying h x \<union> (\<Union>r\<in>set rows. later_forms x (row_forms r)))
      else h x)"
proof (induction rows arbitrary: h)
  case Nil
  show ?case by simp
next
  case (Cons row rows)
  show ?case
    by (auto simp: Cons.IH satisfying_add_forms add_forms_apply later_forms_absent
          satisfying_def Un_assoc)
qed

lemma load_data_apply:
  "load_data rows x =
     (if x \<in> (\<Union>r\<in>set rows. set (row_forms r))
      then Some (\<Union>r\<in>set rows. later_forms x (row_forms r))
      else None)"
  by (simp add: load_data_def build_hierarchy_apply satisfying_def)

lemma load_data_distinct:
  assumes d: "distinct (concat (map row_forms rows))"
    and row: "row \<in> set rows" and i: "i < length (row_forms row)"
  shows "load_data rows (row_forms row ! i) = Some (set (drop i (row_forms row)))"
proof -
  let ?fs = "row_forms row"
  let ?x = "?fs ! i"
  have x: "?x \<in> set ?fs" using i by simp
  have dfs: "distinct ?fs"
    using d row by (auto simp: distinct_concat_iff)
  have other: "later_forms ?x (row_forms r) \<subseteq> later_forms ?x ?fs" if "r \<in> set rows" for r
  proof (cases "row_forms r = ?fs")
    case True
    then show ?thesis by simp
  next
    case False
    then have "set (row_forms r) \<inter> set ?fs = {}"
      using d row that by (auto simp: distinct_concat_iff)
    with x have "?x \<notin> set (row_forms r)" by blast
    then show ?thesis by (simp add: later_forms_absent)
  qed
  have eq: "(\<Union>r\<in>set rows. later_forms ?x (row_forms r)) = later_forms ?x ?fs"
    using other row by blast
  have mem: "?x \<in> (\<Union>r\<in>set rows. set (row_forms r))"
    using x row by blast
  have "load_data rows ?x = Some (\<Union>r\<in>set rows. later_forms ?x (row_forms r))"
    using mem by (simp only: load_data_apply if_True)
  then show ?thesis
    by (simp only: eq later_forms_distinct [OF dfs i])
qed

lemma later_forms_subset:
  "(\<forall>k<length fs. fs ! k = x \<longrightarrow> set (drop k fs) \<subseteq> T) \<Longrightarrow> later_forms x fs \<subseteq> T"
proof (induction fs)
  case Nil
  show ?case by simp
next
  case (Cons f fs)
  from Cons.prems have "\<forall>k<length fs. fs ! k = x \<longrightarrow> set (drop k fs) \<subseteq> T"
    by fastforce
  then have "later_forms x fs \<subseteq> T" by (rule Cons.IH)
  moreover have "set (f # fs) \<subseteq> T" if "f = x"
    using Cons.prems that by fastforce
  ultimately show ?case by auto
qed

lemma later_forms_tail: "i < length fs \<Longrightarrow> set (drop i fs) \<subseteq> later_forms (fs ! i) fs"
proof (induction fs arbitrary: i)
  case Nil
  then show ?case by simp
next
  case (Cons f fs)
  show ?case
  proof (cases i)
    case 0
    then show ?thesis by auto
  next
    case (Suc k)
    with Cons show ?thesis by auto
  qed
qed

lemma load_data_row:
  assumes "row \<in> set rows" and "i < length (row_forms row)"
  shows "load_data rows (row_forms row ! i) =
           Some (\<Union>r\<in>set rows. later_forms (row_forms row ! i) (row_forms r))"
proof -
  have "row_forms row ! i \<in> (\<Union>r\<in>set rows. set (row_forms r))"
    using assms by (meson UN_I nth_mem)
  then show ?thesis
    by (simp only: load_data_apply if_True)
qed

lemma other_chains_forms:
  "map row_forms other_chains = [[''A'', ''B'', ''C''], [''X'', ''Y''], [''X'', ''Z'']]"
  by (simp add: other_chains_def row_forms_def List.map_filter_simps)

lemma other_chains_hd: "hd other_chains \<in> set other_chains"
  by (simp add: other_chains_def)

section \<open>Claims about the hierarchy\<close>

text \<open>
  C6, as amended. In the hierarchy built from any unit table, the satisfying set of every
  unit that has an entry contains the unit itself. And for every row and two stages of its
  list of present stages: if the later stage, wherever it occurs in the table, is followed
  only by stages of this row from the earlier stage on, then the satisfying set of the
  later stage is a subset of the satisfying set of the earlier one. So for a chain
  \<^verbatim>\<open>[A, B, C]\<close> the set of \<^verbatim>\<open>A\<close> includes the set of \<^verbatim>\<open>B\<close>, which includes the set of \<^verbatim>\<open>C\<close>,
  when no other row continues \<^verbatim>\<open>B\<close> or \<^verbatim>\<open>C\<close> with a unit from outside the chain. Nothing is
  asked of the other rows: they may repeat the chain or share units among themselves.
\<close>

theorem hierarchy_chain:
  "(\<forall>u S. load_data cats_data u = Some S \<longrightarrow> u \<in> S) \<and>
   (\<forall>row\<in>set cats_data. \<forall>i j.
       i \<le> j \<and> j < length (row_forms row) \<and>
       (\<forall>r\<in>set cats_data. \<forall>k<length (row_forms r).
           row_forms r ! k = row_forms row ! j \<longrightarrow>
           set (drop k (row_forms r)) \<subseteq> set (drop i (row_forms row))) \<longrightarrow>
       (\<exists>A B. load_data cats_data (row_forms row ! i) = Some A \<and>
              load_data cats_data (row_forms row ! j) = Some B \<and> B \<subseteq> A))"
proof (intro conjI allI impI ballI)
  fix u S
  assume "load_data cats_data u = Some S"
  then show "u \<in> S"
    by (auto simp: load_data_apply later_forms_self split: if_splits)
next
  fix row i j
  let ?fs = "row_forms row"
  assume row: "row \<in> set cats_data"
    and h: "i \<le> j \<and> j < length ?fs \<and>
       (\<forall>r\<in>set cats_data. \<forall>k<length (row_forms r).
           row_forms r ! k = ?fs ! j \<longrightarrow> set (drop k (row_forms r)) \<subseteq> set (drop i ?fs))"
  then have i: "i < length ?fs" and j: "j < length ?fs" by simp_all
  let ?A = "\<Union>r\<in>set cats_data. later_forms (?fs ! i) (row_forms r)"
  let ?B = "\<Union>r\<in>set cats_data. later_forms (?fs ! j) (row_forms r)"
  have "later_forms (?fs ! j) (row_forms r) \<subseteq> set (drop i ?fs)" if "r \<in> set cats_data" for r
    using h that by (intro later_forms_subset) blast
  then have "?B \<subseteq> set (drop i ?fs)" by blast
  also have "\<dots> \<subseteq> later_forms (?fs ! i) ?fs"
    using i by (rule later_forms_tail)
  also have "\<dots> \<subseteq> ?A"
    using row by blast
  finally have "?B \<subseteq> ?A" .
  then show "\<exists>A B. load_data cats_data (?fs ! i) = Some A \<and>
                load_data cats_data (?fs ! j) = Some B \<and> B \<subseteq> A"
    using load_data_row [OF row i] load_data_row [OF row j] by blast
qed

theorem hierarchy_chain_witness:
  "row_forms (hd other_chains) = [''A'', ''B'', ''C''] \<and>
   \<not> distinct (concat (map row_forms other_chains)) \<and>
   load_data other_chains ''A'' = Some {''A'', ''B'', ''C''} \<and>
   load_data other_chains ''B'' = Some {''B'', ''C''} \<and>
   {''B'', ''C''} \<subseteq> {''A'', ''B'', ''C''}"
proof -
  have fs: "row_forms (hd other_chains) = [''A'', ''B'', ''C'']"
    by (simp add: other_chains_def row_forms_def List.map_filter_simps)
  have hyp: "\<forall>r\<in>set other_chains. \<forall>k<length (row_forms r).
           row_forms r ! k = row_forms (hd other_chains) ! 1 \<longrightarrow>
           set (drop k (row_forms r)) \<subseteq> set (drop 0 (row_forms (hd other_chains)))"
    unfolding fs
    by (auto simp: other_chains_def row_forms_def List.map_filter_simps less_Suc_eq
          dest: in_set_dropD)
  note step = hierarchy_chain [of other_chains, THEN conjunct2, THEN bspec,
      OF other_chains_hd, THEN spec, THEN spec, THEN mp]
  have "\<exists>A B. load_data other_chains (row_forms (hd other_chains) ! 0) = Some A \<and>
          load_data other_chains (row_forms (hd other_chains) ! 1) = Some B \<and> B \<subseteq> A"
  proof (rule step)
    show "0 \<le> (1::nat) \<and> 1 < length (row_forms (hd other_chains)) \<and>
      (\<forall>r\<in>set other_chains. \<forall>k<length (row_forms r).
           row_forms r ! k = row_forms (hd other_chains) ! 1 \<longrightarrow>
           set (drop k (row_forms r)) \<subseteq> set (drop 0 (row_forms (hd other_chains))))"
      using hyp by (simp add: fs)
  qed
  moreover have "load_data other_chains ''A'' = Some {''A'', ''B'', ''C''}"
    "load_data other_chains ''B'' = Some {''B'', ''C''}"
    by (auto simp: load_data_def other_chains_def row_forms_def List.map_filter_simps)
  ultimately show ?thesis
    by (simp add: fs other_chains_forms)
qed

text \<open>
  C6 as stated fails when a later stage is continued in another row: entries accumulate,
  so with the chains \<^verbatim>\<open>[A, B, C]\<close> and \<^verbatim>\<open>[B, D]\<close> the set of \<^verbatim>\<open>B\<close> holds \<^verbatim>\<open>D\<close>, which the set
  of \<^verbatim>\<open>A\<close> lacks.
\<close>

theorem hierarchy_shared_unit_counterexample:
  "row_forms (hd shared_unit) = [''A'', ''B'', ''C''] \<and>
   load_data shared_unit ''A'' = Some {''A'', ''B'', ''C''} \<and>
   load_data shared_unit ''B'' = Some {''B'', ''C'', ''D''} \<and>
   \<not> {''B'', ''C'', ''D''} \<subseteq> {''A'', ''B'', ''C''}"
  by (auto simp: load_data_def shared_unit_def row_forms_def List.map_filter_simps)

section \<open>Properties of the integer conversion\<close>

text \<open>
  The separators 28 to 31 are not skipped, and a literal of more than 4300 digits is
  rejected whatever surrounds the digits.
\<close>

lemma py_unsigned_limit:
  "max_str_digits < length (filter is_digit s) \<Longrightarrow> py_unsigned s = None"
  by (auto simp: py_unsigned_def split: list.splits)

lemma py_int_separator: "py_int (CHR 0x1C # ''5'') = None"
  by code_simp

lemma filter_dropWhile_disjoint:
  "(\<And>x. P x \<Longrightarrow> \<not> Q x) \<Longrightarrow> filter Q (dropWhile P xs) = filter Q xs"
  by (induction xs) auto

lemma int_space_not_digit: "is_int_space c \<Longrightarrow> \<not> is_digit c"
  by (auto simp: is_int_space_def is_digit_def)

lemma digits_int_strip: "length (filter is_digit (int_strip s)) = length (filter is_digit s)"
proof -
  have "filter is_digit (int_strip s) = filter is_digit s"
    unfolding int_strip_def
    by (simp add: filter_dropWhile_disjoint int_space_not_digit flip: rev_filter)
  then show ?thesis by simp
qed

lemma py_int_limit:
  assumes "max_str_digits < length (filter is_digit s)"
  shows "py_int s = None"
proof (cases "int_strip s")
  case Nil
  then show ?thesis by (simp add: py_int_def)
next
  case (Cons c cs)
  have d: "max_str_digits < length (filter is_digit (c # cs))"
    using assms digits_int_strip [of s] Cons by simp
  have "py_unsigned cs = None" if "\<not> is_digit c"
    using d that by (intro py_unsigned_limit) simp
  moreover have "py_unsigned (c # cs) = None"
    using d by (rule py_unsigned_limit)
  moreover have "\<not> is_digit (CHR ''-'')" "\<not> is_digit (CHR ''+'')"
    by (simp_all add: is_digit_def)
  ultimately show ?thesis
    using Cons by (auto simp: py_int_def)
qed

lemma py_int_long: "py_int (replicate 4301 (CHR ''0'')) = None"
  by (rule py_int_limit) (simp add: max_str_digits_def is_digit_def)

section \<open>Claims about the query surface\<close>

text \<open>
  C9, as amended. When each of \<^verbatim>\<open>strength\<close> and \<^verbatim>\<open>max_cats\<close> is absent or a string that
  \<^verbatim>\<open>int\<close> accepts, a request without \<^verbatim>\<open>effect_type\<close>, or with an empty one, gets the status
  400 with the message that the effect type is required, whatever the search would do: it
  is not called. And when the search raises an exception, the handler returns the status
  500 with the exception's message and raises nothing itself; in any run of requests the
  ones before and after it are answered as they would be without it.
\<close>

theorem find_combinations_errors:
  assumes "int_arg args ''strength'' 1 = Inr s" and "int_arg args ''max_cats'' 5 = Inr m"
  shows "((args ''effect_type'' = None \<or> args ''effect_type'' = Some []) \<longrightarrow>
            find_combinations search args = Inr (Error ''Effect type is required'', 400)) \<and>
         (\<forall>t msg. args ''effect_type'' = Some t \<and> t \<noteq> [] \<and> search t s m = Inl msg \<longrightarrow>
            find_combinations search args = Inr (Error msg, 500) \<and>
            (\<forall>before after.
               serve search (before @ args # after) =
                 serve search before @ Inr (Error msg, 500) # serve search after))"
  using assms by (auto simp: find_combinations_def serve_def)

theorem find_combinations_errors_witness:
  "find_combinations (search_global None) [''strength'' \<mapsto> ''2''] =
     Inr (Error ''Effect type is required'', 400) \<and>
   find_combinations (search_global None) [''effect_type'' \<mapsto> [], ''max_cats'' \<mapsto> '' 3''] =
     Inr (Error ''Effect type is required'', 400) \<and>
   find_combinations (search_global None) [''effect_type'' \<mapsto> ''Attack''] =
     Inr (Error (CHR 0x27 # ''NoneType'' @ CHR 0x27 # '' object has no attribute '' @
                    CHR 0x27 # ''iterrows'' @ [CHR 0x27]), 500) \<and>
   serve (search_global None) [[''effect_type'' \<mapsto> ''Attack''], [''strength'' \<mapsto> ''2'']] =
     [Inr (Error (CHR 0x27 # ''NoneType'' @ CHR 0x27 # '' object has no attribute '' @
                    CHR 0x27 # ''iterrows'' @ [CHR 0x27]), 500),
      Inr (Error ''Effect type is required'', 400)]"
proof -
  have i2: "py_int ''2'' = Some 2" by code_simp
  have i3: "py_int '' 3'' = Some 3" by code_simp
  have a: "int_arg [''strength'' \<mapsto> ''2''] ''strength'' 1 = Inr 2"
    "int_arg [''strength'' \<mapsto> ''2''] ''max_cats'' 5 = Inr 5"
    by (simp_all add: int_arg_def i2)
  have b: "int_arg [''effect_type'' \<mapsto> [], ''max_cats'' \<mapsto> '' 3''] ''strength'' 1 = Inr 1"
    "int_arg [''effect_type'' \<mapsto> [], ''max_cats'' \<mapsto> '' 3''] ''max_cats'' 5 = Inr 3"
    by (simp_all add: int_arg_def i3)
  have c: "int_arg [''effect_type'' \<mapsto> ''Attack''] ''strength'' 1 = Inr 1"
    "int_arg [''effect_type'' \<mapsto> ''Attack''] ''max_cats'' 5 = Inr 5"
    by (simp_all add: int_arg_def)
  have r1: "find_combinations (search_global None) [''strength'' \<mapsto> ''2''] =
     Inr (Error ''Effect type is required'', 400)"
    using find_combinations_errors [OF a, of "search_global None"] by simp
  have r2: "find_combinations (search_global None)
              [''effect_type'' \<mapsto> [], ''max_cats'' \<mapsto> '' 3''] =
     Inr (Error ''Effect type is required'', 400)"
    using find_combinations_errors [OF b, of "search_global None"] by simp
  have r3: "find_combinations (search_global None) [''effect_type'' \<mapsto> ''Attack''] =
     Inr (Error (CHR 0x27 # ''NoneType'' @ CHR 0x27 # '' object has no attribute '' @
                    CHR 0x27 # ''iterrows'' @ [CHR 0x27]), 500)"
    using find_combinations_errors [OF c, of "search_global None"]
    by (simp add: search_global_def)
  show ?thesis
    by (simp add: r1 r2 r3 serve_def)
qed

text \<open>
  C9 as stated fails when \<^verbatim>\<open>strength\<close> is not accepted by \<^verbatim>\<open>int\<close>: the \<^verbatim>\<open>ValueError\<close> is
  raised before \<^verbatim>\<open>effect_type\<close> is looked at and outside the \<^verbatim>\<open>try\<close>, so a request with
  \<^verbatim>\<open>strength=abc\<close> and no effect type gets no 400 response from the handler.
\<close>

theorem find_combinations_bad_strength_counterexample:
  "[''strength'' \<mapsto> ''abc''] ''effect_type'' = None \<and>
   find_combinations (search_global (Some attack_combos)) [''strength'' \<mapsto> ''abc'']
     = Inl (ValueError ''abc'') \<and>
   find_combinations (search_global (Some attack_combos)) [''strength'' \<mapsto> ''abc'']
     \<noteq> Inr (Error ''Effect type is required'', 400)"
proof -
  have "py_int ''abc'' = None" by code_simp
  then show ?thesis
    by (simp add: find_combinations_def int_arg_def)
qed

end
